theory Spec2Isabelle
  imports Complex_Main
begin

section \<open>Numeric values\<close>

text \<open>
  The generators of \<^verbatim>\<open>gen_gal_catalog_rockstar_modified_subsampled_numba.py\<close> compute
  with float64. The embedding takes real numbers for the finite values (no rounding, no
  overflow) and adds the three non-finite values where the source can produce them: the
  satellite occupation raises a possibly negative base to a real power. Divisors (sigma,
  Q, M_1) are taken non-zero and halo masses positive, as the callers supply them.
\<close>

datatype fl = Fin real | PInf | NInf | NaN

fun fadd :: "fl \<Rightarrow> fl \<Rightarrow> fl" where
  "fadd NaN y = NaN"
| "fadd x NaN = NaN"
| "fadd (Fin a) (Fin b) = Fin (a + b)"
| "fadd PInf NInf = NaN"
| "fadd NInf PInf = NaN"
| "fadd PInf y = PInf"
| "fadd x PInf = PInf"
| "fadd NInf y = NInf"
| "fadd x NInf = NInf"

definition inf_signed :: "real \<Rightarrow> fl" where
  "inf_signed a = (if a = 0 then NaN else if 0 < a then PInf else NInf)"

fun fmul :: "fl \<Rightarrow> fl \<Rightarrow> fl" where
  "fmul NaN y = NaN"
| "fmul x NaN = NaN"
| "fmul (Fin a) (Fin b) = Fin (a * b)"
| "fmul (Fin a) PInf = inf_signed a"
| "fmul (Fin a) NInf = inf_signed (- a)"
| "fmul PInf (Fin b) = inf_signed b"
| "fmul NInf (Fin b) = inf_signed (- b)"
| "fmul PInf PInf = PInf"
| "fmul NInf NInf = PInf"
| "fmul PInf NInf = NInf"
| "fmul NInf PInf = NInf"

text \<open>The comparison \<^verbatim>\<open>x <= y\<close> of two floats: false as soon as one side is NaN.\<close>

fun fle :: "fl \<Rightarrow> fl \<Rightarrow> bool" where
  "fle NaN y = False"
| "fle x NaN = False"
| "fle (Fin a) (Fin b) = (a \<le> b)"
| "fle NInf y = True"
| "fle x PInf = True"
| "fle PInf y = False"
| "fle x NInf = False"

text \<open>
  \<^verbatim>\<open>x ** a\<close> on floats (the C library's pow): a negative base with a non-integral
  exponent is NaN, a zero base with a negative exponent is infinite.
\<close>

definition fpow :: "real \<Rightarrow> real \<Rightarrow> fl" where
  "fpow x a =
     (if 0 < x then Fin (x powr a)
      else if x = 0 then (if 0 < a then Fin 0 else if a = 0 then Fin 1 else PInf)
      else if a = of_int \<lfloor>a\<rfloor> then Fin (x powi \<lfloor>a\<rfloor>)
      else NaN)"

subsection \<open>The error function\<close>

text \<open>
  \<^verbatim>\<open>math.erf\<close> and \<^verbatim>\<open>math.erfc\<close> are the C library's; here they are the function
  itself, by its Maclaurin series.
\<close>

definition erf_term :: "real \<Rightarrow> nat \<Rightarrow> real" where
  "erf_term x k = 2 / sqrt pi * ((- 1) ^ k * x ^ (2 * k + 1) / (real (2 * k + 1) * fact k))"

definition erf :: "real \<Rightarrow> real" where
  "erf x = (\<Sum>k. erf_term x k)"

definition erfc :: "real \<Rightarrow> real" where
  "erfc x = 1 - erf x"

section \<open>Probability models\<close>

definition n_sat_LRG_modified ::
  "real \<Rightarrow> real \<Rightarrow> real \<Rightarrow> real \<Rightarrow> real \<Rightarrow> real \<Rightarrow> real \<Rightarrow> fl" where
  "n_sat_LRG_modified M_h logM_cut M_cut M_1 sigma alpha kappa =
     fmul (fmul (fpow ((M_h - kappa * M_cut) / M_1) alpha) (Fin 0.5))
          (Fin (erfc ((logM_cut - log 10 M_h) / (1.41421356 * sigma))))"

definition n_cen_LRG :: "real \<Rightarrow> real \<Rightarrow> real \<Rightarrow> real" where
  "n_cen_LRG M_h logM_cut sigma =
     0.5 * erfc ((logM_cut - log 10 M_h) / (1.41421356 * sigma))"

definition N_sat_generic :: "real \<Rightarrow> real \<Rightarrow> real \<Rightarrow> real \<Rightarrow> real \<Rightarrow> real \<Rightarrow> fl" where
  "N_sat_generic M_h M_cut kappa M_1 alpha A_s =
     fmul (Fin A_s) (fpow ((M_h - kappa * M_cut) / M_1) alpha)"

definition Gaussian_fun :: "real \<Rightarrow> real \<Rightarrow> real \<Rightarrow> real" where
  "Gaussian_fun x mean sigma =
     0.3989422804014327 / sigma * exp (- (x - mean)\<^sup>2 / 2 / sigma\<^sup>2)"

definition phi_fun :: "real \<Rightarrow> real \<Rightarrow> real \<Rightarrow> real" where
  "phi_fun logM_h logM_cut sigma = Gaussian_fun logM_h logM_cut sigma"

definition Phi_fun :: "real \<Rightarrow> real \<Rightarrow> real \<Rightarrow> real \<Rightarrow> real" where
  "Phi_fun logM_h logM_cut sigma gamma =
     (let x = gamma * (logM_h - logM_cut) / sigma in 0.5 * (1 + erf (x / sqrt 2)))"

definition A_fun :: "real \<Rightarrow> real \<Rightarrow> real \<Rightarrow> real \<Rightarrow> real" where
  "A_fun p_max Q phi Phi = p_max - 1 / Q"

text \<open>The source line is \<^verbatim>\<open>logM_h = np.log(M_h)\<close>: numpy's natural logarithm.\<close>

definition N_cen_ELG_v1 :: "real \<Rightarrow> real \<Rightarrow> real \<Rightarrow> real \<Rightarrow> real \<Rightarrow> real \<Rightarrow> real" where
  "N_cen_ELG_v1 M_h p_max Q logM_cut sigma gamma =
     (let logM_h = ln M_h;
          phi = phi_fun logM_h logM_cut sigma;
          Phi = Phi_fun logM_h logM_cut sigma gamma;
          A = A_fun p_max Q phi Phi
      in 2 * A * phi * Phi + 0.5 / Q * (1 + erf ((logM_h - logM_cut) * 100)))"

definition N_cen_ELG_v2 :: "real \<Rightarrow> real \<Rightarrow> real \<Rightarrow> real \<Rightarrow> real \<Rightarrow> real" where
  "N_cen_ELG_v2 M_h p_max logM_cut sigma gamma =
     (let logM_h = log 10 M_h
      in if logM_h \<le> logM_cut then p_max * Gaussian_fun logM_h logM_cut sigma
         else p_max * (M_h / 10 powr logM_cut) powr gamma / (2.5066283 * sigma))"

definition N_cen_QSO :: "real \<Rightarrow> real \<Rightarrow> real \<Rightarrow> real \<Rightarrow> real" where
  "N_cen_QSO M_h p_max logM_cut sigma =
     0.5 * p_max * (1 + erf ((log 10 M_h - logM_cut) / 1.41421356 / sigma))"

text \<open>
  What the specification asks of the first ELG central model: the same composition on the
  base-10 logarithm of the halo mass.
\<close>

definition N_cen_ELG_v1_base10 ::
  "real \<Rightarrow> real \<Rightarrow> real \<Rightarrow> real \<Rightarrow> real \<Rightarrow> real \<Rightarrow> real" where
  "N_cen_ELG_v1_base10 M_h p_max Q logM_cut sigma gamma =
     (let logM_h = log 10 M_h;
          phi = phi_fun logM_h logM_cut sigma;
          Phi = Phi_fun logM_h logM_cut sigma gamma;
          A = A_fun p_max Q phi Phi
      in 2 * A * phi * Phi + 0.5 / Q * (1 + erf ((logM_h - logM_cut) * 100)))"

section \<open>Periodic wrap\<close>

definition wrap :: "real \<Rightarrow> real \<Rightarrow> real" where
  "wrap x L =
     (let L2 = L / 2
      in if L2 \<le> x then x - L else if x < - L2 then x + L else x)"

section \<open>Partition engine\<close>

text \<open>
  Both generators run the same two passes over a split of the index range into
  \<open>Nthread\<close> consecutive pieces; \<open>Nthread\<close> is numba's process-wide thread count,
  here an argument. The pieces of a \<^verbatim>\<open>prange\<close> loop touch disjoint counters and
  disjoint output slots, so the loop is taken in the order of the thread index.
\<close>

datatype error = IndexError | TypingError | ZeroDivisionError

datatype tracer = LRG | ELG | QSO

datatype col = Cx | Cy | Cz | Cvx | Cvy | Cvz | Cmass | Cid

type_synonym counts = "nat \<times> nat \<times> nat"

text \<open>An output array made by \<^verbatim>\<open>np.empty\<close>: a slot holds nothing until it is written.\<close>

type_synonym buf = "real option list"

type_synonym bufs = "tracer \<Rightarrow> col \<Rightarrow> buf"

type_synonym dict = "string \<rightharpoonup> buf"

fun cnt :: "tracer \<Rightarrow> counts \<Rightarrow> nat" where
  "cnt LRG (n1, n2, n3) = n1"
| "cnt ELG (n1, n2, n3) = n2"
| "cnt QSO (n1, n2, n3) = n3"

fun code_of :: "tracer \<Rightarrow> nat" where
  "code_of LRG = 1"
| "code_of ELG = 2"
| "code_of QSO = 3"

text \<open>\<^verbatim>\<open>np.rint\<close>: to the nearest integer, a tie to the even one.\<close>

definition rint :: "real \<Rightarrow> int" where
  "rint x =
     (let f = \<lfloor>x\<rfloor>; r = x - of_int f
      in if r < 1 / 2 then f else if 1 / 2 < r then f + 1
         else if even f then f else f + 1)"

definition linspace :: "real \<Rightarrow> real \<Rightarrow> nat \<Rightarrow> real list" where
  "linspace start stop num =
     (if num = 0 then []
      else if num = 1 then [start]
      else (map (\<lambda>i. start + real i * ((stop - start) / real (num - 1))) [0..<num])
             [num - 1 := stop])"

definition hstart_of :: "nat \<Rightarrow> nat \<Rightarrow> nat list" where
  "hstart_of H Nthread = map (\<lambda>x. nat (rint x)) (linspace 0 (real H) (Nthread + 1))"

text \<open>\<^verbatim>\<open>range(hstart[tid], hstart[tid + 1])\<close>\<close>

definition thread_range :: "nat list \<Rightarrow> nat \<Rightarrow> nat list" where
  "thread_range hstart tid = [hstart ! tid ..< hstart ! (tid + 1)]"

text \<open>
  One iteration of the counting loop. \<open>label i\<close> is the outcome of the source's
  \<^verbatim>\<open>if randoms[i] <= LRG_marker: ... elif ...\<close> chain for object \<open>i\<close>: the value it
  stores in \<^verbatim>\<open>keep[i]\<close>. The counters are slot 0 of \<^verbatim>\<open>Nout[tid, 0..2, :]\<close>.
\<close>

fun classify_step ::
  "(nat \<Rightarrow> nat) \<Rightarrow> counts \<times> nat option list \<Rightarrow> nat \<Rightarrow> counts \<times> nat option list" where
  "classify_step label ((n1, n2, n3), keep) i =
     (if label i = 1 then ((n1 + 1, n2, n3), keep[i := Some 1])
      else if label i = 2 then ((n1, n2 + 1, n3), keep[i := Some 2])
      else if label i = 3 then ((n1, n2, n3 + 1), keep[i := Some 3])
      else ((n1, n2, n3), keep[i := Some 0]))"

definition classify_thread ::
  "(nat \<Rightarrow> nat) \<Rightarrow> nat list \<Rightarrow> counts list \<times> nat option list \<Rightarrow> nat
     \<Rightarrow> counts list \<times> nat option list" where
  "classify_thread label hstart s tid =
     (case s of (Nout, keep) \<Rightarrow>
        (case foldl (classify_step label) (Nout ! tid, keep) (thread_range hstart tid) of
           (c, keep') \<Rightarrow> (Nout[tid := c], keep')))"

definition classify_pass ::
  "(nat \<Rightarrow> nat) \<Rightarrow> nat list \<Rightarrow> nat \<Rightarrow> nat \<Rightarrow> counts list \<times> nat option list" where
  "classify_pass label hstart H Nthread =
     foldl (classify_thread label hstart)
       (replicate Nthread (0, 0, 0), replicate H None) [0..<Nthread]"

definition cumsum :: "nat list \<Rightarrow> nat list" where
  "cumsum xs = map (\<lambda>k. sum_list (take (Suc k) xs)) [0..<length xs]"

text \<open>
  \<^verbatim>\<open>gstart[0, :] = 0\<close> and \<^verbatim>\<open>gstart[1:, t] = Nout[:, t, 0].cumsum()\<close>, row by row.
\<close>

definition gstart_of :: "counts list \<Rightarrow> counts list" where
  "gstart_of Nout =
     (0, 0, 0) #
       map (\<lambda>k. (cumsum (map (cnt LRG) Nout) ! k,
                  cumsum (map (cnt ELG) Nout) ! k,
                  cumsum (map (cnt QSO) Nout) ! k)) [0..<length Nout]"

text \<open>
  The 24 output arrays. Each has the length of its tracer's total, but for
  \<^verbatim>\<open>qso_mass = np.empty(N_lrg, dtype = mass.dtype)\<close>.
\<close>

definition alloc :: "nat \<Rightarrow> nat \<Rightarrow> nat \<Rightarrow> bufs" where
  "alloc N_lrg N_elg N_qso =
     (\<lambda>t c. replicate
        (case t of LRG \<Rightarrow> N_lrg | ELG \<Rightarrow> N_elg
         | QSO \<Rightarrow> (if c = Cmass then N_lrg else N_qso)) None)"

text \<open>
  A store \<^verbatim>\<open>b[j] = v\<close>. The compiled code has no bounds check, and what a store past
  the end of an array does is not fixed by the source; here such a store is dropped. It
  can occur for \<^verbatim>\<open>qso_mass\<close> only, whose length is not that of its tracer.
\<close>

definition store :: "buf \<Rightarrow> nat \<Rightarrow> real \<Rightarrow> buf" where
  "store b j v = (if j < length b then b[j := Some v] else b)"

definition write_row :: "tracer \<Rightarrow> nat \<Rightarrow> (col \<Rightarrow> real) \<Rightarrow> bufs \<Rightarrow> bufs" where
  "write_row t j r B = (\<lambda>t' c. if t' = t then store (B t' c) j (r c) else B t' c)"

text \<open>
  One iteration of the filling loop: \<open>row i\<close> gives, column by column, the value that
  the source stores for object \<open>i\<close> (for z, the last of its two stores).
\<close>

fun fill_step ::
  "(nat \<Rightarrow> col \<Rightarrow> real) \<Rightarrow> nat option list \<Rightarrow> counts \<times> bufs \<Rightarrow> nat \<Rightarrow> counts \<times> bufs" where
  "fill_step row keep ((j1, j2, j3), B) i =
     (if keep ! i = Some 1 then ((j1 + 1, j2, j3), write_row LRG j1 (row i) B)
      else if keep ! i = Some 2 then ((j1, j2 + 1, j3), write_row ELG j2 (row i) B)
      else if keep ! i = Some 3 then ((j1, j2, j3 + 1), write_row QSO j3 (row i) B)
      else ((j1, j2, j3), B))"

definition fill_thread ::
  "(nat \<Rightarrow> col \<Rightarrow> real) \<Rightarrow> nat option list \<Rightarrow> nat list \<Rightarrow> counts list \<Rightarrow> bufs \<Rightarrow> nat
     \<Rightarrow> bufs" where
  "fill_thread row keep hstart gstart B tid =
     snd (foldl (fill_step row keep) (gstart ! tid, B) (thread_range hstart tid))"

definition fill_pass ::
  "(nat \<Rightarrow> col \<Rightarrow> real) \<Rightarrow> nat option list \<Rightarrow> nat list \<Rightarrow> counts list \<Rightarrow> nat \<Rightarrow> bufs
     \<Rightarrow> bufs" where
  "fill_pass row keep hstart gstart Nthread B =
     foldl (fill_thread row keep hstart gstart) B [0..<Nthread]"

definition dict_of :: "(col \<Rightarrow> buf) \<Rightarrow> dict" where
  "dict_of b =
     [''x'' \<mapsto> b Cx, ''y'' \<mapsto> b Cy, ''z'' \<mapsto> b Cz,
      ''vx'' \<mapsto> b Cvx, ''vy'' \<mapsto> b Cvy, ''vz'' \<mapsto> b Cvz,
      ''mass'' \<mapsto> b Cmass, ''id'' \<mapsto> b Cid]"

text \<open>The two passes, from the labels and rows of one generator to its three dictionaries.\<close>

definition partition_engine ::
  "(nat \<Rightarrow> nat) \<Rightarrow> (nat \<Rightarrow> col \<Rightarrow> real) \<Rightarrow> nat \<Rightarrow> nat \<Rightarrow> bufs" where
  "partition_engine label row H Nthread =
     (let hstart = hstart_of H Nthread;
          (Nout, keep) = classify_pass label hstart H Nthread;
          gstart = gstart_of Nout;
          (N_lrg, N_elg, N_qso) = last gstart
      in fill_pass row keep hstart gstart Nthread (alloc N_lrg N_elg N_qso))"

section \<open>Central generator\<close>

record common_args =
  randoms :: "real list"
  LRG_design_array :: "real list"
  ELG_design_array :: "real list"
  QSO_design_array :: "real list"
  rsd :: bool
  inv_velz2kms :: real
  lbox :: real
  want_LRG :: bool
  want_ELG :: bool
  want_QSO :: bool

record cent_args = common_args +
  pos :: "(real \<times> real \<times> real) list"
  vel :: "(real \<times> real \<times> real) list"
  mass :: "real list"
  ids :: "int list"
  multis :: "real list"
  vdev :: "real list"
  deltac :: "real list"
  fenv :: "real list"
  ic :: real
  alpha_c :: real
  Ac :: real
  Bc :: real

fun ax0 :: "real \<times> real \<times> real \<Rightarrow> real" where "ax0 (a, b, c) = a"
fun ax1 :: "real \<times> real \<times> real \<Rightarrow> real" where "ax1 (a, b, c) = b"
fun ax2 :: "real \<times> real \<times> real \<Rightarrow> real" where "ax2 (a, b, c) = c"

definition cent_markers :: "cent_args \<Rightarrow> nat \<Rightarrow> real \<times> real \<times> real" where
  "cent_markers a i =
     (let logM_cut_L = LRG_design_array a ! 0; sigma_L = LRG_design_array a ! 2;
          pmax_E = ELG_design_array a ! 0; Q_E = ELG_design_array a ! 1;
          logM_cut_E = ELG_design_array a ! 2; sigma_E = ELG_design_array a ! 4;
          gamma_E = ELG_design_array a ! 7;
          pmax_Q = QSO_design_array a ! 0; logM_cut_Q = QSO_design_array a ! 1;
          sigma_Q = QSO_design_array a ! 3;
          LRG_marker =
            (if want_LRG a
             then (let logM_cut_L_temp = logM_cut_L + Ac a * deltac a ! i + Bc a * fenv a ! i
                   in 0 + n_cen_LRG (mass a ! i) logM_cut_L_temp sigma_L * ic a * multis a ! i)
             else 0);
          ELG_marker =
            (if want_ELG a
             then LRG_marker
                    + N_cen_ELG_v1 (mass a ! i) pmax_E Q_E logM_cut_E sigma_E gamma_E
                        * multis a ! i
             else LRG_marker);
          QSO_marker =
            (if want_QSO a
             then ELG_marker + N_cen_QSO (mass a ! i) pmax_Q logM_cut_Q sigma_Q
             else ELG_marker)
      in (LRG_marker, ELG_marker, QSO_marker))"

text \<open>The value of \<^verbatim>\<open>keep[i]\<close>: the first marker, in the order LRG, ELG, QSO, that the
  draw does not exceed.\<close>

definition keep_of :: "real \<Rightarrow> real \<times> real \<times> real \<Rightarrow> nat" where
  "keep_of draw m =
     (case m of (LRG_marker, ELG_marker, QSO_marker) \<Rightarrow>
        if draw \<le> LRG_marker then 1
        else if draw \<le> ELG_marker then 2
        else if draw \<le> QSO_marker then 3
        else 0)"

definition cent_keep :: "cent_args \<Rightarrow> nat \<Rightarrow> nat" where
  "cent_keep a i = keep_of (randoms a ! i) (cent_markers a i)"

definition cent_row :: "cent_args \<Rightarrow> nat \<Rightarrow> col \<Rightarrow> real" where
  "cent_row a i c =
     (let vx = ax0 (vel a ! i) + alpha_c a * vdev a ! i;
          vy = ax1 (vel a ! i) + alpha_c a * vdev a ! i;
          vz = ax2 (vel a ! i) + alpha_c a * vdev a ! i
      in case c of
           Cx \<Rightarrow> ax0 (pos a ! i)
         | Cy \<Rightarrow> ax1 (pos a ! i)
         | Cz \<Rightarrow> (if rsd a then wrap (ax2 (pos a ! i) + vz * inv_velz2kms a) (lbox a)
                  else ax2 (pos a ! i))
         | Cvx \<Rightarrow> vx
         | Cvy \<Rightarrow> vy
         | Cvz \<Rightarrow> vz
         | Cmass \<Rightarrow> mass a ! i
         | Cid \<Rightarrow> of_int (ids a ! i))"

text \<open>
  The generator reads its three design arrays at fixed positions (the largest are 4, 8
  and 6). A call with a shorter array has no value that the source fixes; the result
  \<open>Inl IndexError\<close> stands for it. \<^verbatim>\<open>gen_gals\<close> always passes arrays of the full lengths.
\<close>

definition gen_cent :: "cent_args \<Rightarrow> nat \<Rightarrow> error + dict \<times> dict \<times> dict" where
  "gen_cent a Nthread =
     (if length (LRG_design_array a) < 5 \<or> length (ELG_design_array a) < 9
         \<or> length (QSO_design_array a) < 7
      then Inl IndexError
      else (let B = partition_engine (cent_keep a) (cent_row a) (length (mass a)) Nthread
            in Inr (dict_of (B LRG), dict_of (B ELG), dict_of (B QSO))))"

section \<open>Satellite generator\<close>

record sats_args = common_args +
  ppos :: "(real \<times> real \<times> real) list"
  pvel :: "(real \<times> real \<times> real) list"
  hvel :: "(real \<times> real \<times> real) list"
  hmass :: "real list"
  hid :: "int list"
  weights :: "real list"
  hdeltac :: "real list"
  hfenv :: "real list"
  enable_ranks :: bool
  ranks :: "real list"
  ranksv :: "real list"
  ranksp :: "real list"
  ranksr :: "real list"
  LRG_decorations_array :: "real list"
  Mpart :: real

definition sats_markers :: "sats_args \<Rightarrow> nat \<Rightarrow> fl \<times> fl \<times> fl" where
  "sats_markers a i =
     (let logM_cut_L = LRG_design_array a ! 0; logM1_L = LRG_design_array a ! 1;
          sigma_L = LRG_design_array a ! 2; alpha_L = LRG_design_array a ! 3;
          kappa_L = LRG_design_array a ! 4;
          s = LRG_decorations_array a ! 2; s_v = LRG_decorations_array a ! 3;
          s_p = LRG_decorations_array a ! 4; s_r = LRG_decorations_array a ! 5;
          Ac = LRG_decorations_array a ! 6; As = LRG_decorations_array a ! 7;
          Bc = LRG_decorations_array a ! 8; Bs = LRG_decorations_array a ! 9;
          ic = LRG_decorations_array a ! 10;
          logM_cut_E = ELG_design_array a ! 2; kappa_E = ELG_design_array a ! 3;
          logM1_E = ELG_design_array a ! 5; alpha_E = ELG_design_array a ! 6;
          As_E = ELG_design_array a ! 8;
          logM_cut_Q = QSO_design_array a ! 1; kappa_Q = QSO_design_array a ! 2;
          logM1_Q = QSO_design_array a ! 4; alpha_Q = QSO_design_array a ! 5;
          As_Q = QSO_design_array a ! 6;
          LRG_marker =
            (if want_LRG a
             then (let M1_L_temp = 10 powr (logM1_L + As * hdeltac a ! i + Bs * hfenv a ! i);
                       logM_cut_L_temp = logM_cut_L + Ac * hdeltac a ! i + Bc * hfenv a ! i;
                       base_p =
                         fmul (fmul (n_sat_LRG_modified (hmass a ! i) logM_cut_L_temp
                                       (10 powr logM_cut_L_temp) M1_L_temp sigma_L alpha_L kappa_L)
                                    (Fin (weights a ! i)))
                              (Fin ic);
                       exp_sat =
                         (if enable_ranks a
                          then (let decorator = 1 + s * ranks a ! i + s_v * ranksv a ! i
                                                  + s_p * ranksp a ! i + s_r * ranksr a ! i
                                in fmul base_p (Fin decorator))
                          else base_p)
                   in fadd (Fin 0) exp_sat)
             else Fin 0);
          ELG_marker =
            (if want_ELG a
             then fadd LRG_marker
                    (fmul (N_sat_generic (hmass a ! i) (10 powr logM_cut_E) kappa_E
                             (10 powr logM1_E) alpha_E As_E)
                          (Fin (weights a ! i)))
             else LRG_marker);
          QSO_marker =
            (if want_QSO a
             then fadd ELG_marker
                    (fmul (N_sat_generic (hmass a ! i) (10 powr logM_cut_Q) kappa_Q
                             (10 powr logM1_Q) alpha_Q As_Q)
                          (Fin (weights a ! i)))
             else ELG_marker)
      in (LRG_marker, ELG_marker, QSO_marker))"

definition keep_of_fl :: "real \<Rightarrow> fl \<times> fl \<times> fl \<Rightarrow> nat" where
  "keep_of_fl draw m =
     (case m of (LRG_marker, ELG_marker, QSO_marker) \<Rightarrow>
        if fle (Fin draw) LRG_marker then 1
        else if fle (Fin draw) ELG_marker then 2
        else if fle (Fin draw) QSO_marker then 3
        else 0)"

definition sats_keep :: "sats_args \<Rightarrow> nat \<Rightarrow> nat" where
  "sats_keep a i = keep_of_fl (randoms a ! i) (sats_markers a i)"

definition sats_row :: "sats_args \<Rightarrow> nat \<Rightarrow> col \<Rightarrow> real" where
  "sats_row a i c =
     (let alpha_s = LRG_decorations_array a ! 1;
          vx = ax0 (hvel a ! i) + alpha_s * (ax0 (pvel a ! i) - ax0 (hvel a ! i));
          vy = ax1 (hvel a ! i) + alpha_s * (ax1 (pvel a ! i) - ax1 (hvel a ! i));
          vz = ax2 (hvel a ! i) + alpha_s * (ax2 (pvel a ! i) - ax2 (hvel a ! i))
      in case c of
           Cx \<Rightarrow> ax0 (ppos a ! i)
         | Cy \<Rightarrow> ax1 (ppos a ! i)
         | Cz \<Rightarrow> (if rsd a then wrap (ax2 (ppos a ! i) + vz * inv_velz2kms a) (lbox a)
                  else ax2 (ppos a ! i))
         | Cvx \<Rightarrow> vx
         | Cvy \<Rightarrow> vy
         | Cvz \<Rightarrow> vz
         | Cmass \<Rightarrow> hmass a ! i
         | Cid \<Rightarrow> of_int (hid a ! i))"

text \<open>As in the central generator, \<open>Inl IndexError\<close> stands for a call with a short array.\<close>

definition gen_sats :: "sats_args \<Rightarrow> nat \<Rightarrow> error + dict \<times> dict \<times> dict" where
  "gen_sats a Nthread =
     (if length (LRG_design_array a) < 5 \<or> length (LRG_decorations_array a) < 11
         \<or> length (ELG_design_array a) < 9 \<or> length (QSO_design_array a) < 7
      then Inl IndexError
      else (let B = partition_engine (sats_keep a) (sats_row a) (length (hmass a)) Nthread
            in Inr (dict_of (B LRG), dict_of (B ELG), dict_of (B QSO))))"

section \<open>Orchestrator\<close>











section \<open>What the two passes are to compute\<close>

text \<open>
  The specification of the engine: the objects kept for a tracer, in the order of their
  input index, and the length that the source gives to each output array.
\<close>

definition kept :: "(nat \<Rightarrow> nat) \<Rightarrow> tracer \<Rightarrow> nat \<Rightarrow> nat list" where
  "kept label t H = filter (\<lambda>i. label i = code_of t) [0..<H]"

definition alloc_len :: "(nat \<Rightarrow> nat) \<Rightarrow> nat \<Rightarrow> tracer \<Rightarrow> col \<Rightarrow> nat" where
  "alloc_len label H t c =
     length (kept label (if t = QSO \<and> c = Cmass then LRG else t) H)"

text \<open>Auxiliary functions of the proofs: one counter, one array, one thread at a time.\<close>

definition norm_label :: "(nat \<Rightarrow> nat) \<Rightarrow> nat \<Rightarrow> nat" where
  "norm_label label i =
     (if label i = 1 then 1 else if label i = 2 then 2 else if label i = 3 then 3 else 0)"

definition count_in :: "(nat \<Rightarrow> nat) \<Rightarrow> nat list \<Rightarrow> counts" where
  "count_in label js =
     (length (filter (\<lambda>i. label i = 1) js), length (filter (\<lambda>i. label i = 2) js),
      length (filter (\<lambda>i. label i = 3) js))"

definition mark :: "(nat \<Rightarrow> nat) \<Rightarrow> nat option list \<Rightarrow> nat list \<Rightarrow> nat option list" where
  "mark label keep js = foldl (\<lambda>k i. k[i := Some (norm_label label i)]) keep js"

fun place :: "buf \<Rightarrow> nat \<Rightarrow> real list \<Rightarrow> buf" where
  "place b j [] = b"
| "place b j (v # vs) = place (store b j v) (Suc j) vs"

fun fill1 :: "(nat \<Rightarrow> bool) \<Rightarrow> (nat \<Rightarrow> real) \<Rightarrow> nat \<times> buf \<Rightarrow> nat \<Rightarrow> nat \<times> buf" where
  "fill1 P f (j, b) i = (if P i then (Suc j, store b j (f i)) else (j, b))"

section \<open>Names of the columns, and particular inputs\<close>

text \<open>The key of each column in the dictionaries that the generators return.\<close>

fun key_of :: "col \<Rightarrow> string" where
  "key_of Cx = ''x''" | "key_of Cy = ''y''" | "key_of Cz = ''z''"
| "key_of Cvx = ''vx''" | "key_of Cvy = ''vy''" | "key_of Cvz = ''vz''"
| "key_of Cmass = ''mass''" | "key_of Cid = ''id''"


text \<open>
  Inputs at which the theorems below are evaluated: one halo of unit mass, for which both
  logarithms of the mass are 0 and every error function is taken at 0, and one particle.
\<close>

definition halo1 :: cent_args where
  "halo1 =
     \<lparr>randoms = [3 / 10],
        LRG_design_array = [0, 0, 1, 1, 1],
        ELG_design_array = [1, 1, 0, 1, 1, 0, 1, 1, 1],
        QSO_design_array = [1, 0, 1, 1, 0, 1, 1],
        rsd = False, inv_velz2kms = 1, lbox = 32,
        want_LRG = True, want_ELG = False, want_QSO = False,
        pos = [(1, 2, 3)], vel = [(0, 0, 0)], mass = [1], ids = [7], multis = [1],
        vdev = [0], deltac = [0], fenv = [0], ic = 1, alpha_c = 0, Ac = 0, Bc = 0\<rparr>"

definition halo_elg_half :: cent_args where
  "halo_elg_half = halo1\<lparr>want_LRG := False, want_ELG := True, ic := 1 / 2\<rparr>"






text \<open>
  The coefficients of the error function as a power series in x: those of the odd powers.
\<close>

definition erf_coeff :: "nat \<Rightarrow> real" where
  "erf_coeff n =
     (if odd n then 2 / sqrt pi * ((- 1) ^ (n div 2) / (real n * fact (n div 2))) else 0)"











section \<open>The index partition\<close>

lemma rint_of_int: "rint (of_int n) = n"
  by (simp add: rint_def)

lemma rint_bounds: "\<lfloor>x\<rfloor> \<le> rint x \<and> rint x \<le> \<lfloor>x\<rfloor> + 1"
  by (simp add: rint_def Let_def)

lemma rint_mono:
  assumes "x \<le> y"
  shows "rint x \<le> rint y"
proof (cases "\<lfloor>x\<rfloor> = \<lfloor>y\<rfloor>")
  case True
  with assms show ?thesis by (auto simp: rint_def Let_def)
next
  case False
  with assms have "\<lfloor>x\<rfloor> < \<lfloor>y\<rfloor>" using floor_mono [of x y] by linarith
  with rint_bounds [of x] rint_bounds [of y] show ?thesis by linarith
qed

lemma length_linspace: "length (linspace a b n) = n"
  by (simp add: linspace_def)

lemma length_hstart_of: "length (hstart_of H T) = T + 1"
  by (simp add: hstart_of_def length_linspace)

lemma hstart_of_nth:
  assumes "0 < T" "k \<le> T"
  shows "hstart_of H T ! k = nat (rint (real k * (real H / real T)))"
proof -
  have "linspace 0 (real H) (T + 1) ! k = real k * (real H / real T)"
  proof (cases "k = T")
    case True
    with assms show ?thesis by (simp add: linspace_def)
  next
    case False
    with assms have "k < T" by simp
    with assms show ?thesis by (simp add: linspace_def nth_append del: upt_Suc)
  qed
  with assms show ?thesis by (simp add: hstart_of_def length_linspace)
qed

lemma hstart_of_0: "0 < T \<Longrightarrow> hstart_of H T ! 0 = 0"
  by (simp add: hstart_of_nth rint_def)

lemma hstart_of_last: "0 < T \<Longrightarrow> hstart_of H T ! T = H"
  using rint_of_int [of "int H"] by (simp add: hstart_of_nth)

lemma hstart_of_mono:
  assumes "0 < T" "k \<le> k'" "k' \<le> T"
  shows "hstart_of H T ! k \<le> hstart_of H T ! k'"
proof -
  have "real k * (real H / real T) \<le> real k' * (real H / real T)"
    using assms by (intro mult_right_mono) auto
  then have "rint (real k * (real H / real T)) \<le> rint (real k' * (real H / real T))"
    by (rule rint_mono)
  with assms show ?thesis by (simp add: hstart_of_nth)
qed

lemma concat_ranges:
  assumes "\<And>k. k < n \<Longrightarrow> f k \<le> f (Suc k)"
  shows "concat (map (\<lambda>k. [f k ..< f (Suc k)]) [0..<n]) = [f 0 ..< f n]"
  using assms
proof (induction n)
  case 0
  then show ?case by simp
next
  case (Suc n)
  have "f 0 \<le> f n" using Suc.prems by (induction n) (auto intro: order_trans)
  moreover have "f n \<le> f (Suc n)" using Suc.prems by simp
  ultimately have "[f 0 ..< f (Suc n)] = [f 0 ..< f n] @ [f n ..< f (Suc n)]"
    by (metis le_Suc_ex upt_add_eq_append)
  with Suc show ?case by simp
qed

lemma thread_ranges_prefix:
  assumes "0 < T" "k \<le> T"
  shows "concat (map (thread_range (hstart_of H T)) [0..<k]) = [0 ..< hstart_of H T ! k]"
proof -
  have "concat (map (\<lambda>j. [hstart_of H T ! j ..< hstart_of H T ! Suc j]) [0..<k])
        = [hstart_of H T ! 0 ..< hstart_of H T ! k]"
    using assms by (intro concat_ranges hstart_of_mono) auto
  with assms show ?thesis by (simp add: thread_range_def hstart_of_0 cong: map_cong)
qed

lemma thread_ranges_cover:
  "0 < T \<Longrightarrow> concat (map (thread_range (hstart_of H T)) [0..<T]) = [0..<H]"
  by (simp add: thread_ranges_prefix hstart_of_last)



section \<open>The counting pass\<close>

lemma norm_label_code: "norm_label label i = code_of t \<longleftrightarrow> label i = code_of t"
  by (cases t) (simp_all add: norm_label_def)

lemma cnt_count_in: "cnt t (count_in label js) = length (filter (\<lambda>i. label i = code_of t) js)"
  by (cases t) (simp_all add: count_in_def)

lemma classify_fold:
  "foldl (classify_step label) ((n1, n2, n3), keep) js =
     ((n1 + length (filter (\<lambda>i. label i = 1) js),
       n2 + length (filter (\<lambda>i. label i = 2) js),
       n3 + length (filter (\<lambda>i. label i = 3) js)), mark label keep js)"
  unfolding mark_def
  by (induction js arbitrary: n1 n2 n3 keep) (simp_all add: norm_label_def)

lemma classify_thread_zero:
  assumes "Nout ! tid = (0, 0, 0)"
  shows "classify_thread label hs (Nout, keep) tid =
           (Nout[tid := count_in label (thread_range hs tid)],
            mark label keep (thread_range hs tid))"
  using assms by (simp add: classify_thread_def classify_fold count_in_def)

lemma mark_append: "mark label keep (xs @ ys) = mark label (mark label keep xs) ys"
  by (simp add: mark_def)

lemma classify_prefix:
  assumes "k \<le> T"
  shows "foldl (classify_thread label hs) (replicate T (0, 0, 0), keep) [0..<k] =
           (map (\<lambda>tid. count_in label (thread_range hs tid)) [0..<k] @ replicate (T - k) (0, 0, 0),
            mark label keep (concat (map (thread_range hs) [0..<k])))"
  using assms
proof (induction k)
  case 0
  then show ?case by (simp add: mark_def)
next
  case (Suc k)
  let ?N = "map (\<lambda>tid. count_in label (thread_range hs tid)) [0..<k] @ replicate (T - k) (0, 0, 0)"
  from Suc.prems have k: "k < T" by simp
  then have z: "?N ! k = (0, 0, 0)" by (simp add: nth_append)
  from k obtain m where m: "T - k = Suc m" by (cases "T - k") auto
  then have m': "T - Suc k = m" by simp
  have upd: "?N[k := c] = map (\<lambda>tid. count_in label (thread_range hs tid)) [0..<k] @ [c] @ replicate m (0, 0, 0)" for c
    by (simp add: list_update_append m)
  show ?case
    using Suc.IH k
    by (simp add: classify_thread_zero [OF z] upd m' mark_append del: replicate_Suc)
qed

lemma length_mark: "length (mark label keep js) = length keep"
  unfolding mark_def by (induction js arbitrary: keep) simp_all

lemma mark_nth:
  "i < length keep \<Longrightarrow>
     mark label keep js ! i = (if i \<in> set js then Some (norm_label label i) else keep ! i)"
  unfolding mark_def
proof (induction js arbitrary: keep)
  case Nil
  then show ?case by simp
next
  case (Cons j js)
  then show ?case by (auto simp: nth_list_update)
qed

lemma mark_all: "mark label (replicate H None) [0..<H] = map (\<lambda>i. Some (norm_label label i)) [0..<H]"
  by (rule nth_equalityI) (simp_all add: length_mark mark_nth)

lemma classify_pass_eq:
  assumes "0 < T"
  shows "classify_pass label (hstart_of H T) H T =
           (map (\<lambda>tid. count_in label (thread_range (hstart_of H T) tid)) [0..<T],
            map (\<lambda>i. Some (norm_label label i)) [0..<H])"
  using assms
  by (simp add: classify_pass_def classify_prefix thread_ranges_cover mark_all)



section \<open>The filling pass\<close>

lemma length_gstart_of: "length (gstart_of Nout) = length Nout + 1"
  by (simp add: gstart_of_def)

lemma cnt_gstart_of:
  assumes "k \<le> length Nout"
  shows "cnt t (gstart_of Nout ! k) = sum_list (map (cnt t) (take k Nout))"
proof (cases k)
  case 0
  then show ?thesis by (cases t) (simp_all add: gstart_of_def)
next
  case (Suc j)
  with assms have "j < length Nout" by simp
  with Suc show ?thesis
    by (cases t) (simp_all add: gstart_of_def cumsum_def take_map del: take_Suc)
qed

lemma last_gstart_of: "last (gstart_of Nout) = gstart_of Nout ! length Nout"
  by (simp add: last_conv_nth length_gstart_of gstart_of_def)

lemma length_filter_concat:
  "length (filter P (concat xss)) = sum_list (map (\<lambda>xs. length (filter P xs)) xss)"
  by (induction xss) simp_all

lemma cnt_gstart_counts:
  assumes "k \<le> T"
  shows "cnt t (gstart_of (map (\<lambda>tid. count_in label (I tid)) [0..<T]) ! k) =
           length (filter (\<lambda>i. label i = code_of t) (concat (map I [0..<k])))"
proof -
  have "take k [0..<T] = [0..<k]" using assms by (simp add: take_upt)
  then show ?thesis
    using assms
    by (simp add: cnt_gstart_of take_map length_filter_concat comp_def cnt_count_in)
qed

lemma length_store [simp]: "length (store b j v) = length b"
  by (simp add: store_def)

lemma length_place [simp]: "length (place b j vs) = length b"
  by (induction vs arbitrary: b j) simp_all

lemma place_append: "place b j (xs @ ys) = place (place b j xs) (j + length xs) ys"
  by (induction xs arbitrary: b j) simp_all

lemma place_nth:
  "p < length b \<Longrightarrow>
     place b j vs ! p = (if j \<le> p \<and> p < j + length vs then Some (vs ! (p - j)) else b ! p)"
proof (induction vs arbitrary: b j)
  case Nil
  then show ?case by auto
next
  case (Cons v vs)
  then show ?case
    by (auto simp: store_def nth_list_update Suc_diff_le nth_Cons')
qed

lemma place_fresh:
  "place (replicate n None) 0 vs = take n (map Some vs) @ replicate (n - length vs) None"
  by (rule nth_equalityI) (auto simp: place_nth nth_append)

lemma fill1_fold:
  "foldl (fill1 P f) (j, b) js = (j + length (filter P js), place b j (map f (filter P js)))"
  by (induction js arbitrary: j b) simp_all

lemma fill_step_proj:
  "(case fill_step row keep (js, B) i of (js', B') \<Rightarrow> (cnt t js', B' t c)) =
     fill1 (\<lambda>i. keep ! i = Some (code_of t)) (\<lambda>i. row i c) (cnt t js, B t c) i"
  by (cases js; cases t) (auto simp: write_row_def)

lemma fill_fold_proj:
  "(case foldl (fill_step row keep) (js, B) idx of (js', B') \<Rightarrow> (cnt t js', B' t c)) =
     foldl (fill1 (\<lambda>i. keep ! i = Some (code_of t)) (\<lambda>i. row i c)) (cnt t js, B t c) idx"
proof (induction idx arbitrary: js B)
  case Nil
  then show ?case by simp
next
  case (Cons i idx)
  obtain js' B' where s: "fill_step row keep (js, B) i = (js', B')" by (cases "fill_step row keep (js, B) i")
  with fill_step_proj [where row = row and keep = keep and js = js and B = B and i = i and t = t and c = c]
  have "fill1 (\<lambda>i. keep ! i = Some (code_of t)) (\<lambda>i. row i c) (cnt t js, B t c) i = (cnt t js', B' t c)"
    by simp
  with Cons.IH [of js' B'] s show ?case by simp
qed

lemma fill_thread_col:
  "fill_thread row keep hs gs B tid t c =
     place (B t c) (cnt t (gs ! tid))
       (map (\<lambda>i. row i c) (filter (\<lambda>i. keep ! i = Some (code_of t)) (thread_range hs tid)))"
proof -
  obtain js' B' where s: "foldl (fill_step row keep) (gs ! tid, B) (thread_range hs tid) = (js', B')"
    by (cases "foldl (fill_step row keep) (gs ! tid, B) (thread_range hs tid)")
  with fill_fold_proj [where row = row and keep = keep and js = "gs ! tid" and B = B
      and idx = "thread_range hs tid" and t = t and c = c]
  show ?thesis by (simp add: fill_thread_def fill1_fold)
qed

lemma fill_prefix:
  assumes "\<And>tid. tid < T \<Longrightarrow>
             cnt t (gs ! tid) = length (filter P (concat (map (thread_range hs) [0..<tid])))"
    and "P = (\<lambda>i. keep ! i = Some (code_of t))"
    and "k \<le> T"
  shows "foldl (fill_thread row keep hs gs) B [0..<k] t c =
           place (B t c) 0 (map (\<lambda>i. row i c) (filter P (concat (map (thread_range hs) [0..<k]))))"
  using assms(3)
proof (induction k)
  case 0
  then show ?case by simp
next
  case (Suc k)
  then have "k < T" by simp
  with Suc assms(1) [of k] show ?case
    by (simp add: fill_thread_col place_append assms(2))
qed



section \<open>The engine as a stable compaction\<close>

lemma keep_filter:
  assumes "\<forall>i \<in> set xs. i < H"
  shows "filter (\<lambda>i. map (\<lambda>i. Some (norm_label label i)) [0..<H] ! i = Some (code_of t)) xs
         = filter (\<lambda>i. label i = code_of t) xs"
  using assms by (intro filter_cong) (auto simp: norm_label_code)

lemma prefix_below:
  assumes "0 < T" "k \<le> T"
  shows "\<forall>i \<in> set (concat (map (thread_range (hstart_of H T)) [0..<k])). i < H"
proof -
  have "hstart_of H T ! k \<le> H"
    using hstart_of_mono [of T k T H] assms by (simp add: hstart_of_last)
  with assms show ?thesis by (simp only: thread_ranges_prefix) auto
qed

lemma engine_col:
  assumes "0 < T"
  shows "partition_engine label row H T t c =
           take (alloc_len label H t c) (map (\<lambda>i. Some (row i c)) (kept label t H))
             @ replicate (alloc_len label H t c - length (kept label t H)) None"
proof -
  let ?hs = "hstart_of H T"
  let ?Nout = "map (\<lambda>tid. count_in label (thread_range ?hs tid)) [0..<T]"
  let ?keep = "map (\<lambda>i. Some (norm_label label i)) [0..<H]"
  let ?gs = "gstart_of ?Nout"
  let ?P = "\<lambda>i. ?keep ! i = Some (code_of t)"
  have cnt: "cnt u (?gs ! k) = length (filter (\<lambda>i. label i = code_of u)
               (concat (map (thread_range ?hs) [0..<k])))" if "k \<le> T" for u k
    using that by (rule cnt_gstart_counts)
  have tot: "cnt u (last ?gs) = length (kept label u H)" for u
    using cnt [of T u] assms by (simp add: last_gstart_of thread_ranges_cover kept_def)
  obtain n1 n2 n3 where l: "last ?gs = (n1, n2, n3)" by (cases "last ?gs")
  have n: "n1 = length (kept label LRG H)" "n2 = length (kept label ELG H)"
          "n3 = length (kept label QSO H)"
    using tot [of LRG] tot [of ELG] tot [of QSO] l by simp_all
  have len: "alloc n1 n2 n3 t c = replicate (alloc_len label H t c) None"
    by (cases t) (simp_all add: alloc_def alloc_len_def n)
  have starts: "cnt t (?gs ! tid) = length (filter ?P (concat (map (thread_range ?hs) [0..<tid])))"
    if "tid < T" for tid
    using that cnt [of tid t] keep_filter [OF prefix_below [OF assms, of tid H]] by simp
  have "fill_pass row ?keep ?hs ?gs T (alloc n1 n2 n3) t c =
          place (alloc n1 n2 n3 t c) 0
            (map (\<lambda>i. row i c) (filter ?P (concat (map (thread_range ?hs) [0..<T]))))"
    unfolding fill_pass_def by (rule fill_prefix [OF starts refl order_refl])
  also have "filter ?P (concat (map (thread_range ?hs) [0..<T])) = kept label t H"
    using keep_filter [OF prefix_below [OF assms order_refl, of H]] assms
    by (simp add: thread_ranges_cover kept_def)
  finally have "fill_pass row ?keep ?hs ?gs T (alloc n1 n2 n3) t c =
      take (alloc_len label H t c) (map (\<lambda>i. Some (row i c)) (kept label t H))
        @ replicate (alloc_len label H t c - length (kept label t H)) None"
    by (simp add: len place_fresh comp_def)
  then show ?thesis
    using assms l by (simp add: partition_engine_def classify_pass_eq Let_def)
qed




section \<open>Periodic wrap: one period only\<close>

text \<open>
  C5, as the specification states it: for all real x and all L > 0, \<open>wrap x L\<close> lies
  in \<open>[-L/2, L/2)\<close> and is congruent to x modulo L. The source shifts by one period
  at most, so a value more than one and a half periods away stays outside the interval:
  at x = 100, L = 32 the result is 68.
\<close>

theorem wrap_far_counterexample: "wrap 100 32 = 68 \<and> \<not> wrap 100 32 < 32 / 2"
  by (simp add: wrap_def)

text \<open>
  C5, amended: for every x and L, \<open>wrap x L\<close> differs from x by \<open>-L\<close>, 0 or \<open>L\<close>
  (one period at most), so it is congruent to x modulo L, and \<open>wrap (L/2) L = -L/2\<close>;
  for L > 0 it lies in \<open>[-L/2, L/2)\<close> exactly when \<open>-3L/2 \<le> x < 3L/2\<close>;
  \<open>wrap 20 32 = -12\<close>.
\<close>

theorem wrap_single_period:
  "(0 < L \<longrightarrow>
      ((- L / 2 \<le> wrap x L \<and> wrap x L < L / 2) \<longleftrightarrow> (- 3 * L / 2 \<le> x \<and> x < 3 * L / 2)))
   \<and> (wrap x L = x - L \<or> wrap x L = x \<or> wrap x L = x + L)
   \<and> (\<exists>k::int. wrap x L = x + of_int k * L)
   \<and> wrap (L / 2) L = - L / 2
   \<and> wrap 20 32 = - 12"
proof -
  have range: "0 < L \<longrightarrow>
      ((- L / 2 \<le> wrap x L \<and> wrap x L < L / 2) \<longleftrightarrow> (- 3 * L / 2 \<le> x \<and> x < 3 * L / 2))"
    by (auto simp: wrap_def Let_def)
  have step: "wrap x L = x - L \<or> wrap x L = x \<or> wrap x L = x + L"
    by (auto simp: wrap_def Let_def)
  have "wrap x L = x + of_int (- 1) * L \<or> wrap x L = x + of_int 0 * L
        \<or> wrap x L = x + of_int 1 * L"
    using step by auto
  then have cong: "\<exists>k::int. wrap x L = x + of_int k * L" by blast
  have half: "wrap (L / 2) L = - L / 2"
    by (simp add: wrap_def Let_def)
  have ex: "wrap 20 32 = - 12" by (simp add: wrap_def)
  from range step cong half ex show ?thesis by blast
qed

theorem wrap_single_period_witness:
  "(0::real) < 32 \<and> - 3 * (32::real) / 2 \<le> 40 \<and> (40::real) < 3 * 32 / 2
   \<and> - (32::real) / 2 \<le> wrap 40 32 \<and> wrap 40 32 < 32 / 2 \<and> wrap 40 32 = 8
   \<and> (\<exists>k::int. wrap 40 32 = 40 + of_int k * 32)"
proof -
  have "wrap 40 32 = 8" by (simp add: wrap_def)
  with wrap_single_period [of 32 40] show ?thesis by simp
qed



section \<open>Facts about the particular inputs\<close>

lemma erf_0: "erf 0 = 0"
  by (simp add: erf_def erf_term_def)

lemma erfc_0: "erfc 0 = 1"
  by (simp add: erfc_def erf_0)

lemma dict_of_key: "dict_of b (key_of c) = Some (b c)"
  by (cases c) (simp_all add: dict_of_def)







lemma cent_markers_halo1: "cent_markers halo1 0 = (1 / 2, 1 / 2, 1 / 2)"
  by (simp add: cent_markers_def halo1_def n_cen_LRG_def erfc_0 Let_def)

lemma cent_keep_halo1: "cent_keep halo1 0 = 1"
  by (simp add: cent_keep_def cent_markers_halo1 keep_of_def) (simp add: halo1_def)

lemma kept_halo1:
  "kept (cent_keep halo1) LRG (Suc 0) = [0]" "kept (cent_keep halo1) ELG (Suc 0) = []"
  "kept (cent_keep halo1) QSO (Suc 0) = []"
  by (simp_all add: kept_def cent_keep_halo1)



lemma N_cen_ELG_v1_unit: "N_cen_ELG_v1 1 1 1 0 1 1 = 1 / 2"
  by (simp add: N_cen_ELG_v1_def phi_fun_def Phi_fun_def A_fun_def Gaussian_fun_def erf_0 Let_def)




section \<open>The satellite generator and element 0 of the decorations\<close>

lemma sats_markers_upd0:
  "sats_markers (a\<lparr>LRG_decorations_array := (LRG_decorations_array a)[0 := v]\<rparr>) i
     = sats_markers a i"
  by (simp add: sats_markers_def Let_def)

lemma sats_keep_upd0:
  "sats_keep (a\<lparr>LRG_decorations_array := (LRG_decorations_array a)[0 := v]\<rparr>) = sats_keep a"
  by (rule ext) (simp add: sats_keep_def sats_markers_upd0)

lemma sats_row_upd0:
  "sats_row (a\<lparr>LRG_decorations_array := (LRG_decorations_array a)[0 := v]\<rparr>) = sats_row a"
  by (intro ext) (simp add: sats_row_def Let_def split: col.splits)

text \<open>
  C9: two calls of \<^verbatim>\<open>gen_sats\<close> on inputs that differ only in element 0 of the LRG
  decoration vector return the same three dictionaries. The generator reads the
  elements 1 to 10 of that vector and never element 0.
\<close>

theorem gen_sats_ignores_decoration_0:
  "gen_sats (a\<lparr>LRG_decorations_array := (LRG_decorations_array a)[0 := v]\<rparr>) T = gen_sats a T"
  by (simp add: gen_sats_def sats_keep_upd0 sats_row_upd0)


section \<open>Negative and NaN satellite markers\<close>





section \<open>The boundary of the keep decision\<close>






section \<open>Scaling of the central contributions\<close>

text \<open>
  C4, as the specification states it: the contribution of every active tracer is its
  central occupation times \<^verbatim>\<open>multis[i]\<close> times \<^verbatim>\<open>ic\<close>. The ELG line of the source is
  \<^verbatim>\<open>ELG_marker += N_cen_ELG_v1(...) * multis[i]\<close>: with \<open>ic = 1/2\<close> and an occupation of
  1/2 the contribution is 1/2, not 1/4.
\<close>

theorem elg_not_scaled_by_ic_counterexample:
  "want_ELG halo_elg_half \<and> ic halo_elg_half = 1 / 2 \<and> multis halo_elg_half ! 0 = 1
   \<and> fst (snd (cent_markers halo_elg_half 0)) - fst (cent_markers halo_elg_half 0) = 1 / 2
   \<and> N_cen_ELG_v1 (mass halo_elg_half ! 0) (ELG_design_array halo_elg_half ! 0)
        (ELG_design_array halo_elg_half ! 1) (ELG_design_array halo_elg_half ! 2)
        (ELG_design_array halo_elg_half ! 4) (ELG_design_array halo_elg_half ! 7)
        * multis halo_elg_half ! 0 * ic halo_elg_half = 1 / 4"
  by (simp add: cent_markers_def halo_elg_half_def halo1_def N_cen_ELG_v1_unit Let_def)

text \<open>
  C4, amended: the LRG contribution is the LRG central occupation, evaluated at
  \<open>logM_cut + Ac * deltac[i] + Bc * fenv[i]\<close>, times \<open>ic\<close> times \<open>multis[i]\<close>; the ELG
  contribution is the ELG central occupation times \<open>multis[i]\<close>, without \<open>ic\<close>.
\<close>

theorem central_contributions:
  "(want_LRG a \<longrightarrow>
      fst (cent_markers a i)
        = n_cen_LRG (mass a ! i)
            (LRG_design_array a ! 0 + Ac a * deltac a ! i + Bc a * fenv a ! i)
            (LRG_design_array a ! 2) * ic a * multis a ! i)
   \<and> (want_ELG a \<longrightarrow>
      fst (snd (cent_markers a i)) - fst (cent_markers a i)
        = N_cen_ELG_v1 (mass a ! i) (ELG_design_array a ! 0) (ELG_design_array a ! 1)
            (ELG_design_array a ! 2) (ELG_design_array a ! 4) (ELG_design_array a ! 7)
            * multis a ! i)"
  by (simp add: cent_markers_def Let_def)

theorem central_contributions_witness:
  "want_LRG halo1 \<and> fst (cent_markers halo1 0) = 1 / 2
   \<and> want_ELG halo_elg_half
   \<and> fst (snd (cent_markers halo_elg_half 0)) - fst (cent_markers halo_elg_half 0) = 1 / 2"
proof -
  have h: "want_LRG halo1" "want_ELG halo_elg_half"
    by (simp_all add: halo_elg_half_def halo1_def)
  have v: "n_cen_LRG (mass halo1 ! 0)
            (LRG_design_array halo1 ! 0 + Ac halo1 * deltac halo1 ! 0 + Bc halo1 * fenv halo1 ! 0)
            (LRG_design_array halo1 ! 2) * ic halo1 * multis halo1 ! 0 = 1 / 2"
    by (simp add: halo1_def n_cen_LRG_def erfc_0)
  have w: "N_cen_ELG_v1 (mass halo_elg_half ! 0) (ELG_design_array halo_elg_half ! 0)
        (ELG_design_array halo_elg_half ! 1) (ELG_design_array halo_elg_half ! 2)
        (ELG_design_array halo_elg_half ! 4) (ELG_design_array halo_elg_half ! 7)
        * multis halo_elg_half ! 0 = 1 / 2"
    by (simp add: halo_elg_half_def halo1_def N_cen_ELG_v1_unit)
  show ?thesis
    using central_contributions [of halo1 0] central_contributions [of halo_elg_half 0] h v w
    by simp
qed



section \<open>The classification chain and the counts\<close>










section \<open>Coverage, bijection and order\<close>


lemma halo1_sizes:
  "length (mass halo1) = 1" "5 \<le> length (LRG_design_array halo1)"
  "9 \<le> length (ELG_design_array halo1)" "7 \<le> length (QSO_design_array halo1)"
  by (simp_all add: halo1_def)




section \<open>Lengths of the output columns\<close>

text \<open>
  C1: every column returned for a tracer has the length of that tracer's kept count.
  For every thread count \<open>T > 0\<close> this holds for the LRG and ELG columns and for seven of
  the QSO columns; the QSO mass column has the length of the LRG count, from the line
  \<^verbatim>\<open>qso_mass = np.empty(N_lrg, dtype = mass.dtype)\<close>: it holds the masses of the kept
  QSO indices cut or padded to that length. At \<open>halo1\<close>, one halo kept as LRG and none as
  QSO, the QSO mass column is one slot that was never written and the QSO x column is
  empty.
\<close>

theorem qso_mass_sized_by_lrg_count:
  assumes "0 < T"
    and "5 \<le> length (LRG_design_array a)" and "9 \<le> length (ELG_design_array a)"
    and "7 \<le> length (QSO_design_array a)"
  shows "\<exists>L E Q. gen_cent a T = Inr (L, E, Q)
         \<and> (\<forall>c. map_option length (L (key_of c))
                  = Some (length (kept (cent_keep a) LRG (length (mass a)))))
         \<and> (\<forall>c. map_option length (E (key_of c))
                  = Some (length (kept (cent_keep a) ELG (length (mass a)))))
         \<and> (\<forall>c. c \<noteq> Cmass \<longrightarrow> map_option length (Q (key_of c))
                  = Some (length (kept (cent_keep a) QSO (length (mass a)))))
         \<and> map_option length (Q ''mass'')
             = Some (length (kept (cent_keep a) LRG (length (mass a))))
         \<and> Q ''mass''
             = Some (take (length (kept (cent_keep a) LRG (length (mass a))))
                       (map (\<lambda>i. Some (mass a ! i)) (kept (cent_keep a) QSO (length (mass a))))
                     @ replicate (length (kept (cent_keep a) LRG (length (mass a)))
                                  - length (kept (cent_keep a) QSO (length (mass a)))) None)"
proof -
  let ?H = "length (mass a)"
  let ?B = "partition_engine (cent_keep a) (cent_row a) ?H T"
  have run: "gen_cent a T = Inr (dict_of (?B LRG), dict_of (?B ELG), dict_of (?B QSO))"
    using assms(2-4) by (simp add: gen_cent_def Let_def)
  have len: "length (?B t c) = alloc_len (cent_keep a) ?H t c" for t c
    using assms(1) by (simp add: engine_col)
  have m: "dict_of (?B QSO) ''mass'' = Some (?B QSO Cmass)"
    using dict_of_key [of "?B QSO" Cmass] by simp
  have r: "cent_row a i Cmass = mass a ! i" for i
    by (simp add: cent_row_def)
  have qm: "?B QSO Cmass
             = take (length (kept (cent_keep a) LRG ?H))
                 (map (\<lambda>i. Some (mass a ! i)) (kept (cent_keep a) QSO ?H))
               @ replicate (length (kept (cent_keep a) LRG ?H)
                            - length (kept (cent_keep a) QSO ?H)) None"
    using assms(1) by (simp add: engine_col alloc_len_def r)
  have l: "length (?B QSO Cmass) = length (kept (cent_keep a) LRG ?H)"
    by (simp add: len alloc_len_def)
  show ?thesis
    using run qm l by (simp add: dict_of_key m len alloc_len_def)
qed

theorem qso_mass_sized_by_lrg_count_witness:
  "(0::nat) < 1 \<and> 5 \<le> length (LRG_design_array halo1) \<and> 9 \<le> length (ELG_design_array halo1)
   \<and> 7 \<le> length (QSO_design_array halo1)
   \<and> length (kept (cent_keep halo1) QSO (length (mass halo1))) = 0
   \<and> (\<exists>L E Q. gen_cent halo1 1 = Inr (L, E, Q)
         \<and> Q ''mass'' = Some [None]
         \<and> map_option length (Q ''x'') = Some 0)"
proof -
  have T: "0 < Suc 0" by simp
  from qso_mass_sized_by_lrg_count [OF T halo1_sizes(2-4)]
  obtain L E Q where g: "gen_cent halo1 (Suc 0) = Inr (L, E, Q)"
    and x: "\<forall>c. c \<noteq> Cmass \<longrightarrow> map_option length (Q (key_of c))
                  = Some (length (kept (cent_keep halo1) QSO (length (mass halo1))))"
    and m: "Q ''mass''
             = Some (take (length (kept (cent_keep halo1) LRG (length (mass halo1))))
                       (map (\<lambda>i. Some (mass halo1 ! i))
                          (kept (cent_keep halo1) QSO (length (mass halo1))))
                     @ replicate (length (kept (cent_keep halo1) LRG (length (mass halo1)))
                                  - length (kept (cent_keep halo1) QSO (length (mass halo1)))) None)"
    by blast
  have qx: "map_option length (Q ''x'') = Some 0"
    using x [THEN spec, of Cx] by (simp add: halo1_sizes(1) kept_halo1)
  have qm: "Q ''mass'' = Some [None]"
    using m by (simp add: halo1_sizes(1) kept_halo1)
  from g qx qm have "\<exists>L E Q. gen_cent halo1 1 = Inr (L, E, Q)
         \<and> Q ''mass'' = Some [None] \<and> map_option length (Q ''x'') = Some 0"
    by simp
  then show ?thesis by (simp add: halo1_sizes kept_halo1)
qed



section \<open>The orchestrator and missing keys\<close>













section \<open>The error function is increasing; the logarithm of the first ELG model\<close>

lemma erf_term_bound:
  "norm (erf_term x k) \<le> (2 / sqrt pi * \<bar>x\<bar>) * (inverse (fact k) * (x\<^sup>2) ^ k)"
proof -
  have "norm (erf_term x k) = 2 / sqrt pi * (\<bar>x\<bar> * (x\<^sup>2) ^ k / (real (2 * k + 1) * fact k))"
    by (simp add: erf_term_def abs_mult power_abs power_mult [symmetric] power_even_abs)
  also have "\<dots> \<le> 2 / sqrt pi * (\<bar>x\<bar> * (x\<^sup>2) ^ k / (1 * fact k))"
    by (intro mult_left_mono divide_left_mono mult_right_mono mult_nonneg_nonneg) simp_all
  finally show ?thesis by (simp add: field_simps)
qed

lemma erf_term_summable: "summable (erf_term x)"
proof (rule summable_comparison_test)
  show "\<exists>N. \<forall>n\<ge>N. norm (erf_term x n) \<le> (2 / sqrt pi * \<bar>x\<bar>) * (inverse (fact n) * (x\<^sup>2) ^ n)"
    using erf_term_bound by blast
  show "summable (\<lambda>n. (2 / sqrt pi * \<bar>x\<bar>) * (inverse (fact n) * (x\<^sup>2) ^ n))"
    by (intro summable_mult summable_exp)
qed

lemma erf_sums: "erf_term x sums erf x"
  unfolding erf_def by (rule summable_sums) (rule erf_term_summable)

lemma erf_coeff_term:
  "erf_coeff n * x ^ n = (if even n then 0 else erf_term x ((n - 1) div 2))"
proof (cases "even n")
  case True
  then show ?thesis by (simp add: erf_coeff_def)
next
  case False
  then obtain k where n: "n = 2 * k + 1" by (auto elim: oddE)
  show ?thesis by (simp add: n erf_coeff_def erf_term_def)
qed

lemma erf_power_series: "(\<lambda>n. erf_coeff n * x ^ n) sums erf x"
  unfolding erf_coeff_term by (rule sums_if') (rule erf_sums)

lemma erf_eq: "erf = (\<lambda>x. \<Sum>n. erf_coeff n * x ^ n)"
  by (rule ext) (simp add: sums_unique [OF erf_power_series])

lemma diffs_erf_coeff:
  "diffs erf_coeff n * x ^ n
     = (if even n then 2 / sqrt pi * ((- (x\<^sup>2)) ^ (n div 2) / fact (n div 2)) else 0)"
proof (cases "even n")
  case False
  then show ?thesis by (simp add: diffs_def erf_coeff_def)
next
  case True
  then obtain k where n: "n = 2 * k" by (auto elim: evenE)
  have "(- (x\<^sup>2)) ^ k = (- 1) ^ k * x ^ (2 * k)"
    by (simp add: power_mult power_minus [of "x\<^sup>2"])
  then show ?thesis
    by (simp add: n diffs_def erf_coeff_def)
qed

lemma erf_deriv_sums:
  "(\<lambda>n. diffs erf_coeff n * x ^ n) sums (2 / sqrt pi * exp (- (x\<^sup>2)))"
proof -
  have "(\<lambda>k. (- (x\<^sup>2)) ^ k /\<^sub>R fact k) sums exp (- (x\<^sup>2))"
    by (rule exp_converges)
  then have "(\<lambda>k. 2 / sqrt pi * ((- (x\<^sup>2)) ^ k / fact k)) sums (2 / sqrt pi * exp (- (x\<^sup>2)))"
    by (intro sums_mult) (simp add: divide_inverse mult.commute)
  from sums_if [OF sums_zero this]
  show ?thesis by (simp add: diffs_erf_coeff)
qed

lemma DERIV_erf: "DERIV erf x :> 2 / sqrt pi * exp (- (x\<^sup>2))"
proof -
  have "summable (\<lambda>n. erf_coeff n * (\<bar>x\<bar> + 1) ^ n)"
    using erf_power_series [of "\<bar>x\<bar> + 1"] by (rule sums_summable)
  moreover have "norm x < norm (\<bar>x\<bar> + 1)" by simp
  ultimately have "DERIV (\<lambda>x. \<Sum>n. erf_coeff n * x ^ n) x :> (\<Sum>n. diffs erf_coeff n * x ^ n)"
    by (rule termdiffs_strong)
  then show ?thesis
    by (simp add: erf_eq [symmetric] sums_unique [OF erf_deriv_sums, symmetric])
qed

lemma erf_strict_mono:
  assumes "x < y"
  shows "erf x < erf y"
proof -
  have "\<exists>d. DERIV erf z :> d \<and> 0 < d" for z
    using DERIV_erf [of z] by (intro exI [of _ "2 / sqrt pi * exp (- (z\<^sup>2))"]) simp
  then show ?thesis
    using assms by (intro DERIV_pos_imp_increasing [of x y erf]) blast+
qed

lemma erf_inj: "erf x = erf y \<longleftrightarrow> x = y"
  using erf_strict_mono [of x y] erf_strict_mono [of y x] by (cases x y rule: linorder_cases) auto

lemma ln_10_gt_1: "1 < ln (10::real)"
proof -
  have "exp 1 < (10::real)" using exp_le by simp
  then have "ln (exp 1) < ln (10::real)" by (subst ln_less_cancel_iff) simp_all
  then show ?thesis by simp
qed

lemma ln_eq_log10_iff:
  assumes "0 < M"
  shows "ln M = log 10 M \<longleftrightarrow> M = 1"
proof
  assume e: "ln M = log 10 M"
  have "log 10 M * ln 10 = ln M" by (simp add: log_def)
  with e have "ln M * (ln 10 - 1) = 0" by (simp add: algebra_simps)
  with ln_10_gt_1 have "ln M = 0" by simp
  with assms show "M = 1" by simp
next
  assume "M = 1"
  then show "ln M = log 10 M" by simp
qed

lemma log10_powr_ln10:
  assumes "0 < M"
  shows "log 10 (M powr ln 10) = ln M"
  using assms by (simp add: log_powr log_def)

text \<open>
  C8: every model takes the base-10 logarithm of the halo mass. \<^verbatim>\<open>N_cen_ELG_v1\<close> takes
  the natural logarithm: its value is that of the base-10 composition at the mass
  \<open>M_h powr ln 10\<close>, and for every positive mass other than 1 (with \<open>p_max = 1/Q\<close>, where
  only the steepness-100 term remains) the two values differ.
\<close>

theorem N_cen_ELG_v1_natural_log:
  assumes "0 < M_h" and "M_h \<noteq> 1" and "Q \<noteq> 0"
  shows "N_cen_ELG_v1 M_h (1 / Q) Q logM_cut sigma gamma
           \<noteq> N_cen_ELG_v1_base10 M_h (1 / Q) Q logM_cut sigma gamma
         \<and> N_cen_ELG_v1 M_h p_max Q logM_cut sigma gamma
           = N_cen_ELG_v1_base10 (M_h powr ln 10) p_max Q logM_cut sigma gamma"
proof -
  have ne: "ln M_h \<noteq> log 10 M_h"
    using assms(1,2) by (simp add: ln_eq_log10_iff)
  then have "erf ((ln M_h - logM_cut) * 100) \<noteq> erf ((log 10 M_h - logM_cut) * 100)"
    by (simp add: erf_inj)
  then have a: "N_cen_ELG_v1 M_h (1 / Q) Q logM_cut sigma gamma
           \<noteq> N_cen_ELG_v1_base10 M_h (1 / Q) Q logM_cut sigma gamma"
    using assms(3) by (simp add: N_cen_ELG_v1_def N_cen_ELG_v1_base10_def A_fun_def Let_def)
  have b: "N_cen_ELG_v1 M_h p_max Q logM_cut sigma gamma
           = N_cen_ELG_v1_base10 (M_h powr ln 10) p_max Q logM_cut sigma gamma"
    by (simp only: N_cen_ELG_v1_def N_cen_ELG_v1_base10_def log10_powr_ln10 [OF assms(1)])
  from a b show ?thesis by blast
qed

theorem N_cen_ELG_v1_natural_log_witness:
  "(0::real) < 10 \<and> (10::real) \<noteq> 1 \<and> (1::real) \<noteq> 0
   \<and> N_cen_ELG_v1_base10 10 1 1 1 1 1 = 1 / 2 \<and> N_cen_ELG_v1 10 1 1 1 1 1 \<noteq> 1 / 2"
proof -
  have s: "N_cen_ELG_v1_base10 10 1 1 1 1 1 = 1 / 2"
    by (simp add: N_cen_ELG_v1_base10_def A_fun_def erf_0 Let_def)
  from N_cen_ELG_v1_natural_log [of 10 1 1 1 1 1] s show ?thesis by simp
qed

end
